theory Spec2Isabelle
  imports Complex_Main
begin

section \<open>Values crossing the JavaScript boundary\<close>

text \<open>
  The data channel and the HTTP client hand the program the result of parsing JSON, and the
  program reads fields of it without checking their shape. A value is therefore modelled as
  what JavaScript holds after \<^verbatim>\<open>JSON.parse\<close>, plus \<^verbatim>\<open>undefined\<close>, which a missing
  property reads as. An object is the association list of its properties. Of a number only
  whether it is zero is ever observed (by \<^verbatim>\<open>||\<close>).
\<close>

datatype js =
    JUndefined
  | JNull
  | JBool bool
  | JNum real
  | JStr string
  | JArr "js list"
  | JObj "(string \<times> js) list"

text \<open>
  What the source throws. \<^verbatim>\<open>new Error(m)\<close> is kept with the value \<open>m\<close> it was built from;
  a rejected \<^verbatim>\<open>JSON.parse\<close> or \<^verbatim>\<open>res.json()\<close> is a \<open>SyntaxError\<close>; reading a property of
  \<^verbatim>\<open>null\<close> or \<^verbatim>\<open>undefined\<close> is a \<open>TypeError\<close>; a rejected \<^verbatim>\<open>fetch\<close> is a \<open>NetworkError\<close>.
\<close>

datatype error = Error js | SyntaxError | TypeError | NetworkError

fun nullish :: "js \<Rightarrow> bool" where
  "nullish JUndefined = True"
| "nullish JNull = True"
| "nullish _ = False"

text \<open>
  \<^verbatim>\<open>v.k\<close> for the property names the source reads (\<^verbatim>\<open>type\<close>, \<^verbatim>\<open>role\<close>, \<^verbatim>\<open>text\<close>,
  \<^verbatim>\<open>sources\<close>, \<^verbatim>\<open>detail\<close>, \<^verbatim>\<open>documents\<close>, \<^verbatim>\<open>prompt\<close>): none of them is a property of
  a primitive or of an array, so only an object can hold one.
\<close>

fun getProp :: "js \<Rightarrow> string \<Rightarrow> error + js" where
  "getProp JUndefined k = Inl TypeError"
| "getProp JNull k = Inl TypeError"
| "getProp (JObj kvs) k = Inr (case map_of kvs k of None \<Rightarrow> JUndefined | Some v \<Rightarrow> v)"
| "getProp _ k = Inr JUndefined"

text \<open>JavaScript truthiness, as \<^verbatim>\<open>a || b\<close> tests it.\<close>

fun truthy :: "js \<Rightarrow> bool" where
  "truthy JUndefined = False"
| "truthy JNull = False"
| "truthy (JBool b) = b"
| "truthy (JNum r) = (r \<noteq> 0)"
| "truthy (JStr s) = (s \<noteq> [])"
| "truthy (JArr _) = True"
| "truthy (JObj _) = True"

definition or_else :: "js \<Rightarrow> js \<Rightarrow> js" where
  "or_else a b = (if truthy a then a else b)"

section \<open>Transcript state of the application (App)\<close>

datatype role = User | Agent

record TranscriptMessage =
  msg_role :: role
  msg_text :: js

text \<open>
  A state updater handed to \<^verbatim>\<open>setTranscriptMessages\<close>: \<open>Append msg\<close> is
  \<^verbatim>\<open>prev => [...prev, msg]\<close> of \<^verbatim>\<open>handleTranscript\<close>, and \<open>Stream fullText\<close> is the
  updater of \<^verbatim>\<open>handleAgentStream\<close>, closed over \<^verbatim>\<open>fullText\<close>.
\<close>

datatype update = Append TranscriptMessage | Stream string

text \<open>
  The state \<^verbatim>\<open>App\<close> keeps: the two \<^verbatim>\<open>useState\<close> cells and the \<^verbatim>\<open>isStreamingRef\<close> flag.
  The transcript cell is the list as of the last render together with the updaters queued
  since, which React runs in order at the next render. The sources cell is set to a plain
  value that depends on nothing else, so it is kept as the value last set.
\<close>

record app_state =
  transcriptMessages :: "TranscriptMessage list"
  pending :: "update list"
  ragSources :: js
  isStreaming :: bool

text \<open>
  The state updater of \<^verbatim>\<open>handleAgentStream\<close>: it reads and sets the streaming flag and
  returns the next message list. \<^verbatim>\<open>updated[last]\<close> is only read when \<^verbatim>\<open>last >= 0\<close>.
\<close>

definition agentStreamUpdater ::
  "bool \<Rightarrow> string \<Rightarrow> TranscriptMessage list \<Rightarrow> bool \<times> TranscriptMessage list" where
  "agentStreamUpdater streaming fullText prev =
     (if \<not> streaming then
        (True, prev @ [\<lparr>msg_role = Agent, msg_text = JStr fullText\<rparr>])
      else if prev \<noteq> [] \<and> msg_role (last prev) = Agent then
        (streaming, prev[length prev - 1 := (last prev)\<lparr>msg_text := JStr fullText\<rparr>])
      else (streaming, prev))"

text \<open>One queued updater run on the flag and the list as they are when it runs.\<close>

fun runUpdate :: "bool \<times> TranscriptMessage list \<Rightarrow> update \<Rightarrow> bool \<times> TranscriptMessage list" where
  "runUpdate (flag, prev) (Append msg) = (flag, prev @ [msg])"
| "runUpdate (flag, prev) (Stream fullText) = agentStreamUpdater flag fullText prev"

text \<open>A render of \<^verbatim>\<open>App\<close>: the queued updaters run in the order they were queued.\<close>

definition render :: "app_state \<Rightarrow> app_state" where
  "render a =
     (case foldl runUpdate (isStreaming a, transcriptMessages a) (pending a) of
        (flag, msgs) \<Rightarrow> a\<lparr>transcriptMessages := msgs, pending := [], isStreaming := flag\<rparr>)"

definition handleTranscript :: "app_state \<Rightarrow> TranscriptMessage \<Rightarrow> app_state" where
  "handleTranscript a msg =
     a\<lparr>isStreaming := False, pending := pending a @ [Append msg]\<rparr>"

text \<open>
  \<^verbatim>\<open>handleAgentStream\<close> hands its updater to \<^verbatim>\<open>setTranscriptMessages\<close> and then, on a
  final update, clears the flag. When React runs the updater is not in the source: it
  may run it during the call when no update is pending on the component (\<open>eager\<close>), which
  is a render at that point since nothing else is queued, and it runs it otherwise at the
  next render, after the handler has returned and the flag has been cleared.
\<close>

definition handleAgentStream :: "app_state \<Rightarrow> string \<Rightarrow> bool \<Rightarrow> bool \<Rightarrow> app_state" where
  "handleAgentStream a fullText isFinal eager =
     (let queued = a\<lparr>pending := pending a @ [Stream fullText]\<rparr>;
          called = (if eager \<and> pending a = [] then render queued else queued)
      in if isFinal then called\<lparr>isStreaming := False\<rparr> else called)"

definition handleRagSources :: "app_state \<Rightarrow> js \<Rightarrow> app_state" where
  "handleRagSources a sources = a\<lparr>ragSources := sources\<rparr>"

section \<open>The reconciler of agent transcription segments (ActiveCall)\<close>

record segment =
  seg_text :: string
  seg_final :: bool

text \<open>The three refs of \<^verbatim>\<open>ActiveCall\<close>.\<close>

record call_state =
  committedIndex :: nat
  lastText :: string
  streamingActive :: bool

text \<open>\<^verbatim>\<open>Array.prototype.join(' ')\<close>.\<close>

fun join_sp :: "string list \<Rightarrow> string" where
  "join_sp [] = []"
| "join_sp [x] = x"
| "join_sp (x # y # ys) = x @ '' '' @ join_sp (y # ys)"

text \<open>
  \<^verbatim>\<open>agentTranscriptions.slice(committedIndexRef.current)\<close>; \<^verbatim>\<open>slice\<close> from past the end
  of the array is the empty array, as \<open>drop\<close> is.
\<close>

definition currentSegments :: "call_state \<Rightarrow> segment list \<Rightarrow> segment list" where
  "currentSegments st agentTranscriptions = drop (committedIndex st) agentTranscriptions"

text \<open>
  One run of the effect on the current \<^verbatim>\<open>agentTranscriptions\<close>. The result is the refs
  afterwards and the call of \<^verbatim>\<open>onAgentStream(text, allFinal)\<close> it made, if any.
\<close>

definition agentTranscriptionsEffect ::
  "call_state \<Rightarrow> segment list \<Rightarrow> call_state \<times> (string \<times> bool) option" where
  "agentTranscriptionsEffect st agentTranscriptions =
     (if length agentTranscriptions = 0 then
        (st\<lparr>committedIndex := 0, lastText := []\<rparr>, None)
      else
        let cur = currentSegments st agentTranscriptions in
        if length cur = 0 then (st, None)
        else
          let text = join_sp (map seg_text cur);
              allFinal = list_all seg_final cur;
              emitted = (if text \<noteq> lastText st then Some (text, allFinal) else None);
              st1 = (if text \<noteq> lastText st
                     then st\<lparr>lastText := text, streamingActive := True\<rparr> else st);
              st2 = (if allFinal
                     then st1\<lparr>committedIndex := length agentTranscriptions, lastText := []\<rparr>
                     else st1)
          in (st2, emitted))"

text \<open>The effect run on each state of the segment list in turn, with the updates it emitted.\<close>

fun runEffect :: "call_state \<Rightarrow> segment list list \<Rightarrow> call_state \<times> (string \<times> bool) list" where
  "runEffect st [] = (st, [])"
| "runEffect st (segs # rest) =
     (case agentTranscriptionsEffect st segs of
        (st1, e) \<Rightarrow>
          (case runEffect st1 rest of
             (st2, es) \<Rightarrow> (st2, (case e of None \<Rightarrow> [] | Some u \<Rightarrow> [u]) @ es)))"

section \<open>The call and the application together\<close>

record sys =
  call :: call_state
  app :: app_state

text \<open>
  The effect with \<^verbatim>\<open>onAgentStream\<close> bound to \<^verbatim>\<open>handleAgentStream\<close>, as \<^verbatim>\<open>App\<close> wires
  it; \<open>eager\<close> is React's choice for the call of \<^verbatim>\<open>handleAgentStream\<close>, if one is made.
\<close>

definition segmentsChanged :: "sys \<Rightarrow> segment list \<Rightarrow> bool \<Rightarrow> sys" where
  "segmentsChanged s segs eager =
     (case agentTranscriptionsEffect (call s) segs of
        (c, None) \<Rightarrow> s\<lparr>call := c\<rparr>
      | (c, Some (t, f)) \<Rightarrow> \<lparr>call = c, app = handleAgentStream (app s) t f eager\<rparr>)"

text \<open>
  The body of the \<^verbatim>\<open>try\<close> in \<^verbatim>\<open>handleData\<close>. Its argument is the outcome of
  \<^verbatim>\<open>JSON.parse\<close> on the decoded payload, \<open>None\<close> when that throws. The only other throw is
  the first read \<^verbatim>\<open>msg.type\<close>, before any callback has run.
\<close>

definition handleData_try :: "sys \<Rightarrow> js option \<Rightarrow> error + sys" where
  "handleData_try s parsed =
     (case parsed of
        None \<Rightarrow> Inl SyntaxError
      | Some msg \<Rightarrow>
          (case getProp msg ''type'' of
             Inl e \<Rightarrow> Inl e
           | Inr ty \<Rightarrow>
               if ty = JStr ''transcript'' then
                 (case getProp msg ''role'' of
                    Inl e \<Rightarrow> Inl e
                  | Inr r \<Rightarrow>
                      if r = JStr ''user'' then
                        (case getProp msg ''text'' of
                           Inl e \<Rightarrow> Inl e
                         | Inr t \<Rightarrow>
                             Inr (s\<lparr>app := handleTranscript (app s)
                                    \<lparr>msg_role = User, msg_text = t\<rparr>\<rparr>))
                      else if r = JStr ''agent'' \<and> \<not> streamingActive (call s) then
                        (case getProp msg ''text'' of
                           Inl e \<Rightarrow> Inl e
                         | Inr t \<Rightarrow>
                             Inr (s\<lparr>app := handleTranscript (app s)
                                    \<lparr>msg_role = Agent, msg_text = t\<rparr>\<rparr>))
                      else Inr s)
               else if ty = JStr ''rag_sources'' then
                 (case getProp msg ''sources'' of
                    Inl e \<Rightarrow> Inl e
                  | Inr srcs \<Rightarrow>
                      Inr (s\<lparr>app := handleRagSources (app s) (or_else srcs (JArr []))\<rparr>))
               else Inr s))"

text \<open>\<^verbatim>\<open>catch { /* ignore */ }\<close>: whatever was thrown, the handler returns normally.\<close>

definition handleData :: "sys \<Rightarrow> js option \<Rightarrow> sys" where
  "handleData s parsed = (case handleData_try s parsed of Inl e \<Rightarrow> s | Inr s' \<Rightarrow> s')"

text \<open>
  What happens during a call: the segment list changes, a data packet arrives, or React
  renders \<^verbatim>\<open>App\<close>.
\<close>

datatype event = Segments "segment list" bool | Data "js option" | Render

fun step :: "sys \<Rightarrow> event \<Rightarrow> sys" where
  "step s (Segments segs eager) = segmentsChanged s segs eager"
| "step s (Data parsed) = handleData s parsed"
| "step s Render = s\<lparr>app := render (app s)\<rparr>"

definition run :: "sys \<Rightarrow> event list \<Rightarrow> sys" where
  "run s evs = foldl step s evs"

text \<open>The calls of \<^verbatim>\<open>onAgentStream\<close> made while the events happen, in order.\<close>

fun updates :: "sys \<Rightarrow> event list \<Rightarrow> (string \<times> bool) list" where
  "updates s [] = []"
| "updates s (Segments segs eager # evs) =
     (case snd (agentTranscriptionsEffect (call s) segs) of None \<Rightarrow> [] | Some u \<Rightarrow> [u])
       @ updates (step s (Segments segs eager)) evs"
| "updates s (ev # evs) = updates (step s ev) evs"

text \<open>A freshly mounted call in a freshly mounted application.\<close>

definition initial_call :: call_state where
  "initial_call = \<lparr>committedIndex = 0, lastText = [], streamingActive = False\<rparr>"

definition initial_app :: app_state where
  "initial_app =
     \<lparr>transcriptMessages = [], pending = [], ragSources = JArr [], isStreaming = False\<rparr>"

definition initial_sys :: sys where
  "initial_sys = \<lparr>call = initial_call, app = initial_app\<rparr>"

definition transcript_event :: "string \<Rightarrow> string \<Rightarrow> js option" where
  "transcript_event r t =
     Some (JObj [(''type'', JStr ''transcript''), (''role'', JStr r), (''text'', JStr t)])"

section \<open>The backend API client\<close>

text \<open>
  What \<^verbatim>\<open>fetch\<close> resolved to: the \<^verbatim>\<open>ok\<close> flag and the outcome of \<^verbatim>\<open>res.json()\<close>,
  \<open>None\<close> when the body does not parse and the promise rejects. A rejected \<^verbatim>\<open>fetch\<close> is
  \<open>Inl\<close>. The request each function builds does not enter its result and is left out.
\<close>

record response =
  ok :: bool
  body :: "js option"

definition res_json :: "response \<Rightarrow> error + js" where
  "res_json res = (case body res of None \<Rightarrow> Inl SyntaxError | Some v \<Rightarrow> Inr v)"

definition getToken :: "error + response \<Rightarrow> error + js" where
  "getToken fetched =
     (case fetched of
        Inl e \<Rightarrow> Inl e
      | Inr res \<Rightarrow>
          if \<not> ok res then Inl (Error (JStr ''Failed to get token''))
          else res_json res)"

text \<open>
  On a failed upload the error's message is \<^verbatim>\<open>err.detail || 'Upload failed'\<close>, where
  \<^verbatim>\<open>err\<close> is the parsed body, or \<^verbatim>\<open>{ detail: 'Upload failed' }\<close> when it does not parse.
\<close>

definition uploadDocument :: "error + response \<Rightarrow> error + js" where
  "uploadDocument fetched =
     (case fetched of
        Inl e \<Rightarrow> Inl e
      | Inr res \<Rightarrow>
          if \<not> ok res then
            (let err = (case res_json res of
                          Inl e \<Rightarrow> JObj [(''detail'', JStr ''Upload failed'')]
                        | Inr v \<Rightarrow> v)
             in case getProp err ''detail'' of
                  Inl e \<Rightarrow> Inl e
                | Inr d \<Rightarrow> Inl (Error (or_else d (JStr ''Upload failed''))))
          else res_json res)"

definition listDocuments :: "error + response \<Rightarrow> error + js" where
  "listDocuments fetched =
     (case fetched of
        Inl e \<Rightarrow> Inl e
      | Inr res \<Rightarrow>
          if \<not> ok res then Inl (Error (JStr ''Failed to list documents''))
          else (case res_json res of
                  Inl e \<Rightarrow> Inl e
                | Inr data \<Rightarrow> getProp data ''documents''))"

definition deleteDocument :: "error + response \<Rightarrow> error + unit" where
  "deleteDocument fetched =
     (case fetched of
        Inl e \<Rightarrow> Inl e
      | Inr res \<Rightarrow>
          if \<not> ok res then Inl (Error (JStr ''Failed to delete document''))
          else Inr ())"

definition getPrompt :: "error + response \<Rightarrow> error + js" where
  "getPrompt fetched =
     (case fetched of
        Inl e \<Rightarrow> Inl e
      | Inr res \<Rightarrow>
          if \<not> ok res then Inl (Error (JStr ''Failed to get prompt''))
          else (case res_json res of
                  Inl e \<Rightarrow> Inl e
                | Inr data \<Rightarrow> getProp data ''prompt''))"

definition updatePrompt :: "error + response \<Rightarrow> error + unit" where
  "updatePrompt fetched =
     (case fetched of
        Inl e \<Rightarrow> Inl e
      | Inr res \<Rightarrow>
          if \<not> ok res then Inl (Error (JStr ''Failed to update prompt''))
          else Inr ())"

definition getAgentStatus :: "error + response \<Rightarrow> error + js" where
  "getAgentStatus fetched =
     (case fetched of
        Inl e \<Rightarrow> Inl e
      | Inr res \<Rightarrow>
          if \<not> ok res then Inl (Error (JStr ''Failed to get agent status''))
          else res_json res)"

definition startAgent :: "error + response \<Rightarrow> error + js" where
  "startAgent fetched =
     (case fetched of
        Inl e \<Rightarrow> Inl e
      | Inr res \<Rightarrow>
          if \<not> ok res then Inl (Error (JStr ''Failed to start agent''))
          else res_json res)"

definition stopAgent :: "error + response \<Rightarrow> error + unit" where
  "stopAgent fetched =
     (case fetched of
        Inl e \<Rightarrow> Inl e
      | Inr res \<Rightarrow>
          if \<not> ok res then Inl (Error (JStr ''Failed to stop agent''))
          else Inr ())"

section \<open>The session registry\<close>

text \<open>
  Modelled from the spec: the lifecycle state of a Session. The single-session lock of the
  Turn Orchestrator lives in the backend, which is not among the sources at hand; the spec
  gives a Session an id and a lifecycle state, of which only being Active matters here.
\<close>

datatype lifecycle = Active | Disconnected

text \<open>Modelled from the spec: the session-conflict condition a refused attempt fails with.\<close>

datatype session_error = SessionConflict

text \<open>
  Modelled from the spec: the explicit session registry, the sessions created so far with
  their lifecycle states. It holds nothing else, so there is no queue of waiting attempts.
\<close>

type_synonym registry = "(nat \<times> lifecycle) list"

text \<open>Modelled from the spec: the ids of the sessions that are Active.\<close>

definition active_sessions :: "registry \<Rightarrow> nat list" where
  "active_sessions reg = map fst (filter (\<lambda>p. snd p = Active) reg)"

text \<open>
  Modelled from the spec: acquire on connect. Creating a session while another is Active
  fails; the attempt is answered at once, with the conflict or with the registry holding
  the new Active session.
\<close>

definition connect :: "registry \<Rightarrow> nat \<Rightarrow> session_error + registry" where
  "connect reg sid =
     (if active_sessions reg \<noteq> [] then Inl SessionConflict
      else Inr ((sid, Active) # reg))"

text \<open>Modelled from the spec: release on disconnect.\<close>

definition disconnect :: "registry \<Rightarrow> nat \<Rightarrow> registry" where
  "disconnect reg sid =
     map (\<lambda>p. if fst p = sid then (fst p, Disconnected) else p) reg"

text \<open>Modelled from the spec: the requests a registry receives.\<close>

datatype session_request = Connect nat | Disconnect nat

text \<open>
  Modelled from the spec: the registry after a request. A refused attempt leaves the
  registry as it was.
\<close>

fun serve :: "registry \<Rightarrow> session_request \<Rightarrow> registry" where
  "serve reg (Connect sid) = (case connect reg sid of Inl e \<Rightarrow> reg | Inr reg' \<Rightarrow> reg')"
| "serve reg (Disconnect sid) = disconnect reg sid"

section \<open>Properties of the reconciler\<close>

lemma effect_emission:
  "snd (agentTranscriptionsEffect st segs) = Some (t, f) \<Longrightarrow>
     t = join_sp (map seg_text (currentSegments st segs)) \<and> t \<noteq> lastText st
     \<and> f = list_all seg_final (currentSegments st segs) \<and> currentSegments st segs \<noteq> []"
  by (auto simp: agentTranscriptionsEffect_def Let_def split: if_splits)

lemma effect_commit:
  assumes "currentSegments st segs \<noteq> []"
    and "list_all seg_final (currentSegments st segs)"
  shows "committedIndex (fst (agentTranscriptionsEffect st segs)) = length segs"
    and "lastText (fst (agentTranscriptionsEffect st segs)) = []"
    and "snd (agentTranscriptionsEffect st segs)
           = (if join_sp (map seg_text (currentSegments st segs)) \<noteq> lastText st
              then Some (join_sp (map seg_text (currentSegments st segs)), True) else None)"
  using assms
  by (auto simp: agentTranscriptionsEffect_def Let_def currentSegments_def split: if_splits)

lemma runEffect_Cons:
  "runEffect st (segs # rest) =
     (fst (runEffect (fst (agentTranscriptionsEffect st segs)) rest),
      (case snd (agentTranscriptionsEffect st segs) of None \<Rightarrow> [] | Some u \<Rightarrow> [u])
        @ snd (runEffect (fst (agentTranscriptionsEffect st segs)) rest))"
  by (simp split: prod.splits)

lemma runEffect_above:
  assumes "L \<le> committedIndex st"
    and "[] \<notin> set snaps"
  shows "L \<le> committedIndex (fst (runEffect st snaps))
     \<and> (\<forall>u\<in>set (snd (runEffect st snaps)).
           \<exists>s\<in>set snaps. \<exists>k\<ge>L. fst u = join_sp (map seg_text (drop k s)))"
  using assms
proof (induction snaps arbitrary: st)
  case Nil
  then show ?case by simp
next
  case (Cons s snaps)
  let ?st1 = "fst (agentTranscriptionsEffect st s)"
  have c1: "L \<le> committedIndex ?st1"
    using Cons.prems
    by (auto simp: agentTranscriptionsEffect_def currentSegments_def Let_def split: if_splits)
  have e1: "\<forall>u. snd (agentTranscriptionsEffect st s) = Some u \<longrightarrow>
              (\<exists>k\<ge>L. fst u = join_sp (map seg_text (drop k s)))"
  proof (intro allI impI)
    fix u assume "snd (agentTranscriptionsEffect st s) = Some u"
    then have "fst u = join_sp (map seg_text (currentSegments st s))"
      using effect_emission[of st s "fst u" "snd u"] by simp
    then show "\<exists>k\<ge>L. fst u = join_sp (map seg_text (drop k s))"
      using Cons.prems(1) by (auto simp: currentSegments_def)
  qed
  have ih: "L \<le> committedIndex (fst (runEffect ?st1 snaps))
     \<and> (\<forall>u\<in>set (snd (runEffect ?st1 snaps)).
           \<exists>s\<in>set snaps. \<exists>k\<ge>L. fst u = join_sp (map seg_text (drop k s)))"
    using Cons.IH[OF c1] Cons.prems(2) by simp
  note run = runEffect_Cons[of st s snaps]
  show ?case
  proof (intro conjI ballI)
    show "L \<le> committedIndex (fst (runEffect st (s # snaps)))"
      using ih by (simp add: run del: runEffect.simps(2))
  next
    fix u assume "u \<in> set (snd (runEffect st (s # snaps)))"
    then consider "snd (agentTranscriptionsEffect st s) = Some u"
      | "u \<in> set (snd (runEffect ?st1 snaps))"
      by (auto simp: run simp del: runEffect.simps(2) split: option.splits)
    then show "\<exists>s'\<in>set (s # snaps). \<exists>k\<ge>L. fst u = join_sp (map seg_text (drop k s'))"
    proof cases
      case 1
      then show ?thesis using e1 by simp
    next
      case 2
      then obtain s' k where "s' \<in> set snaps" "k \<ge> L" "fst u = join_sp (map seg_text (drop k s'))"
        using ih by blast
      then show ?thesis by auto
    qed
  qed
qed

lemma effect_idem:
  "agentTranscriptionsEffect (fst (agentTranscriptionsEffect st segs)) segs
     = (fst (agentTranscriptionsEffect st segs), None)"
  by (auto simp: agentTranscriptionsEffect_def Let_def currentSegments_def)

lemma run_simps:
  "run s [] = s" "run s (ev # evs) = run (step s ev) evs"
  by (simp_all add: run_def)

lemma segmentsChanged_call:
  "call (segmentsChanged s segs eager) = fst (agentTranscriptionsEffect (call s) segs)"
  by (simp add: segmentsChanged_def split: prod.splits option.splits)

text \<open>
  Claim C1 at its failing input. A segment is reported as interim and then as final with
  the same text. The turn commits, the cursor is at the end of the list and the last text
  is cleared, but the only update made carries the final flag unset: the guard on changed
  text also holds back the final flag that \<^verbatim>\<open>App\<close> waits for. \<^verbatim>\<open>App\<close> is left
  streaming, and the first update of the next response replaces the text of the committed
  bubble instead of opening a new one, whether React runs the updaters during the calls
  or at the renders in between.
\<close>

theorem final_update_missing_when_text_unchanged:
  "snd (runEffect initial_call
      [[\<lparr>seg_text = ''Hi'', seg_final = False\<rparr>], [\<lparr>seg_text = ''Hi'', seg_final = True\<rparr>]])
     = [(''Hi'', False)]
   \<and> fst (runEffect initial_call
      [[\<lparr>seg_text = ''Hi'', seg_final = False\<rparr>], [\<lparr>seg_text = ''Hi'', seg_final = True\<rparr>]])
     = \<lparr>committedIndex = 1, lastText = [], streamingActive = True\<rparr>
   \<and> app (run initial_sys
      [Segments [\<lparr>seg_text = ''Hi'', seg_final = False\<rparr>] True,
       Segments [\<lparr>seg_text = ''Hi'', seg_final = True\<rparr>] True])
     = \<lparr>transcriptMessages = [\<lparr>msg_role = Agent, msg_text = JStr ''Hi''\<rparr>], pending = [],
        ragSources = JArr [], isStreaming = True\<rparr>
   \<and> app (run initial_sys
      [Segments [\<lparr>seg_text = ''Hi'', seg_final = False\<rparr>] True,
       Segments [\<lparr>seg_text = ''Hi'', seg_final = True\<rparr>] True,
       Segments [\<lparr>seg_text = ''Hi'', seg_final = True\<rparr>,
                 \<lparr>seg_text = ''Bye'', seg_final = False\<rparr>] True])
     = \<lparr>transcriptMessages = [\<lparr>msg_role = Agent, msg_text = JStr ''Bye''\<rparr>], pending = [],
        ragSources = JArr [], isStreaming = True\<rparr>
   \<and> app (run initial_sys
      [Segments [\<lparr>seg_text = ''Hi'', seg_final = False\<rparr>] False, Render,
       Segments [\<lparr>seg_text = ''Hi'', seg_final = True\<rparr>] False, Render,
       Segments [\<lparr>seg_text = ''Hi'', seg_final = True\<rparr>,
                 \<lparr>seg_text = ''Bye'', seg_final = False\<rparr>] False, Render])
     = \<lparr>transcriptMessages = [\<lparr>msg_role = Agent, msg_text = JStr ''Bye''\<rparr>], pending = [],
        ragSources = JArr [], isStreaming = True\<rparr>"
  by (simp add: run_simps segmentsChanged_def agentTranscriptionsEffect_def currentSegments_def
      handleAgentStream_def render_def agentStreamUpdater_def
      initial_sys_def initial_call_def initial_app_def Let_def)

text \<open>
  Claim C3: an update is emitted only when the joined text of the uncommitted segments
  differs from the stored last text, and running the effect again on the same segment
  list emits nothing and changes no ref, so the same finalized list never commits twice.
\<close>

theorem update_only_on_changed_text:
  "(\<forall>t f. snd (agentTranscriptionsEffect st segs) = Some (t, f) \<longrightarrow>
       t = join_sp (map seg_text (currentSegments st segs)) \<and> t \<noteq> lastText st)
   \<and> agentTranscriptionsEffect (fst (agentTranscriptionsEffect st segs)) segs
       = (fst (agentTranscriptionsEffect st segs), None)
   \<and> snd (runEffect st [segs, segs]) = snd (runEffect st [segs])
   \<and> segmentsChanged (segmentsChanged s segs eager) segs eager' = segmentsChanged s segs eager"
proof (intro conjI allI impI)
  fix t f assume e: "snd (agentTranscriptionsEffect st segs) = Some (t, f)"
  show "t = join_sp (map seg_text (currentSegments st segs))" "t \<noteq> lastText st"
    using effect_emission[OF e] by blast+
next
  show "agentTranscriptionsEffect (fst (agentTranscriptionsEffect st segs)) segs
       = (fst (agentTranscriptionsEffect st segs), None)"
    by (rule effect_idem)
next
  show "snd (runEffect st [segs, segs]) = snd (runEffect st [segs])"
    by (simp add: runEffect_Cons effect_idem del: runEffect.simps(2))
next
  have c: "call (segmentsChanged s segs eager) = fst (agentTranscriptionsEffect (call s) segs)"
    by (rule segmentsChanged_call)
  show "segmentsChanged (segmentsChanged s segs eager) segs eager' = segmentsChanged s segs eager"
    using effect_idem[of "call s" segs] c
    by (simp add: segmentsChanged_def[of "segmentsChanged s segs eager"])
qed

theorem update_only_on_changed_text_witness:
  "snd (agentTranscriptionsEffect initial_call [\<lparr>seg_text = ''Hi'', seg_final = True\<rparr>])
     = Some (''Hi'', True)
   \<and> ''Hi'' \<noteq> lastText initial_call
   \<and> snd (runEffect initial_call
        [[\<lparr>seg_text = ''Hi'', seg_final = True\<rparr>], [\<lparr>seg_text = ''Hi'', seg_final = True\<rparr>]])
       = [(''Hi'', True)]"
proof -
  have e: "snd (agentTranscriptionsEffect initial_call [\<lparr>seg_text = ''Hi'', seg_final = True\<rparr>])
     = Some (''Hi'', True)"
    by (simp add: agentTranscriptionsEffect_def currentSegments_def initial_call_def)
  have r: "snd (runEffect initial_call [[\<lparr>seg_text = ''Hi'', seg_final = True\<rparr>]]) = [(''Hi'', True)]"
    using e by (simp add: runEffect_Cons del: runEffect.simps(2))
  note th = update_only_on_changed_text[of initial_call "[\<lparr>seg_text = ''Hi'', seg_final = True\<rparr>]"]
  have a: "''Hi'' \<noteq> lastText initial_call"
    using th e by blast
  have b: "snd (runEffect initial_call
        [[\<lparr>seg_text = ''Hi'', seg_final = True\<rparr>], [\<lparr>seg_text = ''Hi'', seg_final = True\<rparr>]])
      = snd (runEffect initial_call [[\<lparr>seg_text = ''Hi'', seg_final = True\<rparr>]])"
    using th by blast
  show ?thesis
    using e a b r by (simp only: simp_thms)
qed

text \<open>
  Claim C4, as the code has it. The text of an update is the joined text of the segments
  from the committed cursor on, and of nothing before it. Once a turn has committed, the
  cursor stands at the end of the list and the last text is empty; from then on, for as
  long as the segment list does not become empty, the cursor never falls below the
  committed part and every update is built from segments at or after it.
\<close>

theorem updates_only_from_uncommitted:
  "(\<forall>t f. snd (agentTranscriptionsEffect st segs) = Some (t, f) \<longrightarrow>
       t = join_sp (map seg_text (drop (committedIndex st) segs)))
   \<and> (currentSegments st segs \<noteq> [] \<and> list_all seg_final (currentSegments st segs)
        \<and> [] \<notin> set later \<longrightarrow>
       committedIndex (fst (agentTranscriptionsEffect st segs)) = length segs
       \<and> lastText (fst (agentTranscriptionsEffect st segs)) = []
       \<and> length segs \<le> committedIndex (fst (runEffect (fst (agentTranscriptionsEffect st segs)) later))
       \<and> (\<forall>u\<in>set (snd (runEffect (fst (agentTranscriptionsEffect st segs)) later)).
             \<exists>s\<in>set later. \<exists>k\<ge>length segs. fst u = join_sp (map seg_text (drop k s))))"
proof (intro conjI allI impI)
  fix t f assume e: "snd (agentTranscriptionsEffect st segs) = Some (t, f)"
  show "t = join_sp (map seg_text (drop (committedIndex st) segs))"
    using effect_emission[OF e] by (simp add: currentSegments_def)
next
  assume a: "currentSegments st segs \<noteq> [] \<and> list_all seg_final (currentSegments st segs)
        \<and> [] \<notin> set later"
  let ?st' = "fst (agentTranscriptionsEffect st segs)"
  have c: "committedIndex ?st' = length segs" and l: "lastText ?st' = []"
    using effect_commit(1,2)[of st segs] a by simp_all
  have above: "length segs \<le> committedIndex (fst (runEffect ?st' later))
     \<and> (\<forall>u\<in>set (snd (runEffect ?st' later)).
           \<exists>s\<in>set later. \<exists>k\<ge>length segs. fst u = join_sp (map seg_text (drop k s)))"
    using runEffect_above[of "length segs" ?st' later] c a by simp
  show "committedIndex ?st' = length segs" by (rule c)
  show "lastText ?st' = []" by (rule l)
  show "length segs \<le> committedIndex (fst (runEffect ?st' later))" using above by simp
  show "\<forall>u\<in>set (snd (runEffect ?st' later)).
           \<exists>s\<in>set later. \<exists>k\<ge>length segs. fst u = join_sp (map seg_text (drop k s))"
    using above by simp
qed

theorem updates_only_from_uncommitted_witness:
  "committedIndex (fst (agentTranscriptionsEffect initial_call
        [\<lparr>seg_text = ''one'', seg_final = True\<rparr>])) = 1
   \<and> snd (runEffect (fst (agentTranscriptionsEffect initial_call
        [\<lparr>seg_text = ''one'', seg_final = True\<rparr>]))
        [[\<lparr>seg_text = ''one'', seg_final = True\<rparr>, \<lparr>seg_text = ''two'', seg_final = False\<rparr>]])
      = [(''two'', False)]"
  using updates_only_from_uncommitted[of initial_call "[\<lparr>seg_text = ''one'', seg_final = True\<rparr>]"
      "[[\<lparr>seg_text = ''one'', seg_final = True\<rparr>, \<lparr>seg_text = ''two'', seg_final = False\<rparr>]]"]
  by (simp add: agentTranscriptionsEffect_def currentSegments_def initial_call_def Let_def)

text \<open>
  An empty segment list resets the cursor to zero. When the list that follows holds a
  committed segment again, that segment is read again: here the turn with \<open>a\<close> commits,
  the list is emptied, and the next update is \<open>a b\<close>.
\<close>

theorem committed_segment_reread_after_reset_counterexample:
  "fst (runEffect initial_call [[\<lparr>seg_text = ''a'', seg_final = True\<rparr>]])
     = \<lparr>committedIndex = 1, lastText = [], streamingActive = True\<rparr>
   \<and> snd (runEffect initial_call
        [[\<lparr>seg_text = ''a'', seg_final = True\<rparr>],
         [],
         [\<lparr>seg_text = ''a'', seg_final = True\<rparr>, \<lparr>seg_text = ''b'', seg_final = False\<rparr>]])
     = [(''a'', True), (''a b'', False)]"
  by (simp add: agentTranscriptionsEffect_def currentSegments_def initial_call_def Let_def)

text \<open>
  Claim C7: on an empty segment list the effect sets the cursor to zero and clears the
  last text, emits nothing, and leaves the application's state as it was.
\<close>

theorem empty_segments_reset:
  "agentTranscriptionsEffect st [] = (st\<lparr>committedIndex := 0, lastText := []\<rparr>, None)
   \<and> runEffect st [[]] = (st\<lparr>committedIndex := 0, lastText := []\<rparr>, [])
   \<and> segmentsChanged s [] eager = s\<lparr>call := (call s)\<lparr>committedIndex := 0, lastText := []\<rparr>\<rparr>"
  by (simp add: agentTranscriptionsEffect_def segmentsChanged_def)

section \<open>Properties of the transcript handlers\<close>

lemma updater_cases:
  "agentStreamUpdater streaming fullText prev =
     (if \<not> streaming then (True, prev @ [\<lparr>msg_role = Agent, msg_text = JStr fullText\<rparr>])
      else if prev \<noteq> [] \<and> msg_role (last prev) = Agent
      then (True, butlast prev @ [\<lparr>msg_role = Agent, msg_text = JStr fullText\<rparr>])
      else (True, prev))"
proof (cases "prev = []")
  case True
  then show ?thesis by (simp add: agentStreamUpdater_def)
next
  case False
  then obtain ys y where p: "prev = ys @ [y]" by (metis rev_exhaust)
  show ?thesis by (auto simp: agentStreamUpdater_def p)
qed

lemma runUpdate_shape:
  "(\<exists>m. snd (runUpdate (flag, cur) u) = cur @ [m]) \<or> snd (runUpdate (flag, cur) u) = cur
   \<or> (cur \<noteq> [] \<and> msg_role (last cur) = Agent
       \<and> (\<exists>t. snd (runUpdate (flag, cur) u) = butlast cur @ [\<lparr>msg_role = Agent, msg_text = t\<rparr>]))"
  by (cases u) (simp_all add: updater_cases)

lemma runUpdate_keeps:
  assumes "length prev \<le> length cur"
    and "\<forall>i<length prev. Suc i < length prev \<or> msg_role (prev ! i) \<noteq> Agent \<longrightarrow> cur ! i = prev ! i"
  shows "length prev \<le> length (snd (runUpdate (flag, cur) u))
     \<and> (\<forall>i<length prev. Suc i < length prev \<or> msg_role (prev ! i) \<noteq> Agent \<longrightarrow>
           snd (runUpdate (flag, cur) u) ! i = prev ! i)"
proof -
  let ?r = "snd (runUpdate (flag, cur) u)"
  consider (app) m where "?r = cur @ [m]" | (same) "?r = cur"
    | (repl) t where "cur \<noteq> []" "msg_role (last cur) = Agent"
        "?r = butlast cur @ [\<lparr>msg_role = Agent, msg_text = t\<rparr>]"
    using runUpdate_shape[of flag cur u] by blast
  then show ?thesis
  proof cases
    case app
    then show ?thesis using assms by (auto simp: nth_append)
  next
    case same
    then show ?thesis using assms by simp
  next
    case repl
    have len: "length ?r = length cur" using repl by simp
    have "?r ! i = prev ! i"
      if i: "i < length prev" and h: "Suc i < length prev \<or> msg_role (prev ! i) \<noteq> Agent" for i
    proof (cases "Suc i < length cur")
      case True
      then have "i < length (butlast cur)" by simp
      then have "?r ! i = cur ! i" using repl(3) by (simp add: nth_append nth_butlast)
      moreover have "cur ! i = prev ! i" using assms(2) i h by blast
      ultimately show ?thesis by simp
    next
      case False
      then have ic: "i = length cur - 1" and lp: "length prev = length cur"
        using i assms(1) by auto
      have "cur ! i = prev ! i" using assms(2) i h by blast
      moreover have "cur ! i = last cur" using ic repl(1) by (simp add: last_conv_nth)
      ultimately have "msg_role (prev ! i) = Agent" using repl(2) by simp
      moreover have "\<not> Suc i < length prev" using False lp by simp
      ultimately show ?thesis using h by simp
    qed
    then show ?thesis using len assms(1) by simp
  qed
qed

lemma queue_keeps:
  assumes "length prev \<le> length cur"
    and "\<forall>i<length prev. Suc i < length prev \<or> msg_role (prev ! i) \<noteq> Agent \<longrightarrow> cur ! i = prev ! i"
  shows "length prev \<le> length (snd (foldl runUpdate (flag, cur) q))
     \<and> (\<forall>i<length prev. Suc i < length prev \<or> msg_role (prev ! i) \<noteq> Agent \<longrightarrow>
           snd (foldl runUpdate (flag, cur) q) ! i = prev ! i)"
  using assms
proof (induction q arbitrary: flag cur)
  case Nil
  then show ?case by simp
next
  case (Cons u q)
  obtain flag' cur' where r: "runUpdate (flag, cur) u = (flag', cur')"
    by (cases "runUpdate (flag, cur) u")
  have k: "length prev \<le> length cur'
     \<and> (\<forall>i<length prev. Suc i < length prev \<or> msg_role (prev ! i) \<noteq> Agent \<longrightarrow> cur' ! i = prev ! i)"
    using runUpdate_keeps[OF Cons.prems, of flag u] r by simp
  show ?case using Cons.IH[of cur' flag'] k r by simp
qed

lemma render_transcript:
  "transcriptMessages (render a)
     = snd (foldl runUpdate (isStreaming a, transcriptMessages a) (pending a))"
  by (simp add: render_def split: prod.splits)

lemma render_keeps:
  assumes "transcriptMessages a = prev"
  shows "length prev \<le> length (transcriptMessages (render a))
     \<and> (\<forall>i<length prev. Suc i < length prev \<or> msg_role (prev ! i) \<noteq> Agent \<longrightarrow>
           transcriptMessages (render a) ! i = prev ! i)"
  using queue_keeps[of prev prev "isStreaming a" "pending a"] assms
  by (simp add: render_transcript)

lemma handleTranscript_queues:
  "pending (handleTranscript a msg) = pending a @ [Append msg]"
  "transcriptMessages (handleTranscript a msg) = transcriptMessages a"
  "isStreaming (handleTranscript a msg) = False"
  "ragSources (handleTranscript a msg) = ragSources a"
  by (simp_all add: handleTranscript_def)

lemma handleTranscript_rendered:
  "pending a = [] \<Longrightarrow>
     transcriptMessages (render (handleTranscript a msg)) = transcriptMessages a @ [msg]"
  by (simp add: render_transcript handleTranscript_def)

lemma handleTranscript_rendered_behind:
  "transcriptMessages (render (handleTranscript a msg))
     = transcriptMessages (render (a\<lparr>isStreaming := False\<rparr>)) @ [msg]"
proof -
  obtain flag msgs where f: "foldl runUpdate (False, transcriptMessages a) (pending a) = (flag, msgs)"
    by (cases "foldl runUpdate (False, transcriptMessages a) (pending a)")
  show ?thesis by (simp add: render_transcript handleTranscript_def f)
qed

lemma handleAgentStream_rendered:
  "pending a = [] \<Longrightarrow>
     transcriptMessages (render (handleAgentStream a fullText isFinal eager))
       = snd (agentStreamUpdater (if isFinal \<and> \<not> eager then False else isStreaming a)
               fullText (transcriptMessages a))"
  by (simp add: handleAgentStream_def render_def Let_def split: prod.splits)

lemma handleAgentStream_transcript:
  "transcriptMessages (handleAgentStream a fullText isFinal eager)
     = (if eager \<and> pending a = []
        then snd (agentStreamUpdater (isStreaming a) fullText (transcriptMessages a))
        else transcriptMessages a)"
  by (simp add: handleAgentStream_def render_def Let_def split: prod.splits)

lemma handleAgentStream_keeps:
  "length (transcriptMessages a)
     \<le> length (transcriptMessages (render (handleAgentStream a fullText isFinal eager)))
   \<and> (\<forall>i<length (transcriptMessages a).
         Suc i < length (transcriptMessages a) \<or> msg_role (transcriptMessages a ! i) \<noteq> Agent \<longrightarrow>
         transcriptMessages (render (handleAgentStream a fullText isFinal eager)) ! i
           = transcriptMessages a ! i)"
proof (cases "eager \<and> pending a = []")
  case True
  then have p: "pending a = []" by simp
  have k: "length (transcriptMessages a)
      \<le> length (snd (runUpdate (f, transcriptMessages a) (Stream fullText)))
    \<and> (\<forall>i<length (transcriptMessages a).
         Suc i < length (transcriptMessages a) \<or> msg_role (transcriptMessages a ! i) \<noteq> Agent \<longrightarrow>
         snd (runUpdate (f, transcriptMessages a) (Stream fullText)) ! i = transcriptMessages a ! i)"
    for f
    by (rule runUpdate_keeps) simp_all
  show ?thesis using k[of "if isFinal \<and> \<not> eager then False else isStreaming a"]
    by (simp add: handleAgentStream_rendered[OF p])
next
  case False
  let ?h = "handleAgentStream a fullText isFinal eager"
  have "transcriptMessages ?h = transcriptMessages a"
    using False by (auto simp: handleAgentStream_transcript)
  then show ?thesis using render_keeps[of ?h "transcriptMessages a"] by simp
qed

text \<open>
  Claim C5: the updater of \<^verbatim>\<open>handleTranscript\<close> appends and changes nothing else in the
  list. The updater of \<^verbatim>\<open>handleAgentStream\<close> appends a new agent message when the flag
  it reads is unset; when the flag is set, it replaces the text of the last message if
  that is an agent message and otherwise leaves the list alone. Whatever updater runs on
  whatever flag, each message already in the list, other than a trailing agent message,
  stays where it was and as it was. The same holds of the handlers: \<^verbatim>\<open>handleTranscript\<close>
  queues its append and leaves the list of the last render alone, and the list after the
  next render is the one the updater returns, for the flag as it is when the updater
  runs (cleared already when the update is final and the updater runs at the render).
\<close>

theorem handlers_frame:
  "snd (runUpdate (flag, prev) (Append msg)) = prev @ [msg]
   \<and> (\<not> flag \<longrightarrow>
        snd (runUpdate (flag, prev) (Stream fullText))
          = prev @ [\<lparr>msg_role = Agent, msg_text = JStr fullText\<rparr>])
   \<and> (flag \<and> prev \<noteq> [] \<and> msg_role (last prev) = Agent \<longrightarrow>
        snd (runUpdate (flag, prev) (Stream fullText))
          = butlast prev @ [\<lparr>msg_role = Agent, msg_text = JStr fullText\<rparr>])
   \<and> (flag \<and> (prev = [] \<or> msg_role (last prev) \<noteq> Agent) \<longrightarrow>
        snd (runUpdate (flag, prev) (Stream fullText)) = prev)
   \<and> length prev \<le> length (snd (runUpdate (flag, prev) u))
   \<and> (\<forall>i < length prev.
        Suc i < length prev \<or> msg_role (prev ! i) \<noteq> Agent \<longrightarrow>
        snd (runUpdate (flag, prev) u) ! i = prev ! i)
   \<and> pending (handleTranscript a msg) = pending a @ [Append msg]
   \<and> transcriptMessages (handleTranscript a msg) = transcriptMessages a
   \<and> (pending a = [] \<longrightarrow>
        transcriptMessages (render (handleTranscript a msg)) = transcriptMessages a @ [msg])
   \<and> (pending a = [] \<longrightarrow>
        transcriptMessages (render (handleAgentStream a fullText isFinal eager))
          = snd (runUpdate (if isFinal \<and> \<not> eager then False else isStreaming a, transcriptMessages a)
                  (Stream fullText)))
   \<and> length (transcriptMessages a)
        \<le> length (transcriptMessages (render (handleAgentStream a fullText isFinal eager)))
   \<and> (\<forall>i < length (transcriptMessages a).
        Suc i < length (transcriptMessages a) \<or> msg_role (transcriptMessages a ! i) \<noteq> Agent \<longrightarrow>
        transcriptMessages (render (handleAgentStream a fullText isFinal eager)) ! i
          = transcriptMessages a ! i)
   \<and> (\<forall>i < length (transcriptMessages a).
        Suc i < length (transcriptMessages a) \<or> msg_role (transcriptMessages a ! i) \<noteq> Agent \<longrightarrow>
        transcriptMessages (render (handleTranscript a msg)) ! i = transcriptMessages a ! i)"
proof -
  have k: "length prev \<le> length (snd (runUpdate (flag, prev) u))
     \<and> (\<forall>i<length prev. Suc i < length prev \<or> msg_role (prev ! i) \<noteq> Agent \<longrightarrow>
           snd (runUpdate (flag, prev) u) ! i = prev ! i)"
    by (rule runUpdate_keeps) simp_all
  have t: "\<forall>i < length (transcriptMessages a).
        Suc i < length (transcriptMessages a) \<or> msg_role (transcriptMessages a ! i) \<noteq> Agent \<longrightarrow>
        transcriptMessages (render (handleTranscript a msg)) ! i = transcriptMessages a ! i"
    using render_keeps[of "handleTranscript a msg" "transcriptMessages a"]
    by (simp add: handleTranscript_queues)
  have s: "pending a = [] \<longrightarrow>
        transcriptMessages (render (handleAgentStream a fullText isFinal eager))
          = snd (runUpdate (if isFinal \<and> \<not> eager then False else isStreaming a, transcriptMessages a)
                  (Stream fullText))"
    using handleAgentStream_rendered[of a fullText isFinal eager] by simp
  show ?thesis
    using k t s handleAgentStream_keeps[of a fullText isFinal eager]
      handleTranscript_rendered[of a msg]
    by (simp add: updater_cases handleTranscript_queues)
qed

theorem handlers_frame_witness:
  "transcriptMessages (render (handleAgentStream
       \<lparr>transcriptMessages = [\<lparr>msg_role = User, msg_text = JStr ''q''\<rparr>,
                               \<lparr>msg_role = Agent, msg_text = JStr ''He''\<rparr>],
        pending = [], ragSources = JArr [], isStreaming = True\<rparr> ''Hello'' False False))
     = [\<lparr>msg_role = User, msg_text = JStr ''q''\<rparr>, \<lparr>msg_role = Agent, msg_text = JStr ''Hello''\<rparr>]"
  using handlers_frame[of True
       "[\<lparr>msg_role = User, msg_text = JStr ''q''\<rparr>, \<lparr>msg_role = Agent, msg_text = JStr ''He''\<rparr>]"
       _ "''Hello''" _
       "\<lparr>transcriptMessages = [\<lparr>msg_role = User, msg_text = JStr ''q''\<rparr>,
                               \<lparr>msg_role = Agent, msg_text = JStr ''He''\<rparr>],
        pending = [], ragSources = JArr [], isStreaming = True\<rparr>" False False]
  by simp





section \<open>Properties of the data channel handler\<close>

lemma handleData_call: "call (handleData s parsed) = call s"
  by (auto simp: handleData_def handleData_try_def split: option.splits sum.splits)

lemma effect_flag:
  "streamingActive (fst (agentTranscriptionsEffect st segs))
     = (streamingActive st \<or> snd (agentTranscriptionsEffect st segs) \<noteq> None)"
  by (auto simp: agentTranscriptionsEffect_def Let_def)

lemma updates_append:
  "updates s (evs @ rest) = updates s evs @ updates (run s evs) rest"
proof (induction evs arbitrary: s)
  case Nil
  then show ?case by (simp add: run_simps)
next
  case (Cons ev evs)
  show ?case by (cases ev) (simp_all add: Cons.IH run_simps)
qed

lemma run_flag:
  "streamingActive (call (run s evs)) = (streamingActive (call s) \<or> updates s evs \<noteq> [])"
proof (induction evs arbitrary: s)
  case Nil
  then show ?case by (simp add: run_simps)
next
  case (Cons ev evs)
  show ?case
  proof (cases ev)
    case (Segments segs eager)
    show ?thesis
      using Cons.IH[of "step s ev"]
      by (auto simp: Segments run_simps segmentsChanged_call effect_flag split: option.splits)
  next
    case (Data parsed)
    show ?thesis using Cons.IH[of "step s ev"] by (simp add: Data run_simps handleData_call)
  next
    case Render
    show ?thesis using Cons.IH[of "step s ev"] by (simp add: Render run_simps)
  qed
qed

lemma initial_flag: "\<not> streamingActive (call initial_sys)"
  by (simp add: initial_sys_def initial_call_def)

lemma handleData_transcript_agent:
  assumes "getProp msg ''type'' = Inr (JStr ''transcript'')"
    and "getProp msg ''role'' = Inr (JStr ''agent'')"
  shows "handleData s (Some msg) =
     (if streamingActive (call s) then s
      else (case getProp msg ''text'' of
              Inl e \<Rightarrow> s
            | Inr t \<Rightarrow> s\<lparr>app := handleTranscript (app s) \<lparr>msg_role = Agent, msg_text = t\<rparr>\<rparr>))"
  using assms by (simp add: handleData_def handleData_try_def split: sum.splits)

lemma handleData_transcript_user:
  assumes "getProp msg ''type'' = Inr (JStr ''transcript'')"
    and "getProp msg ''role'' = Inr (JStr ''user'')"
  shows "handleData s (Some msg) =
     (case getProp msg ''text'' of
        Inl e \<Rightarrow> s
      | Inr t \<Rightarrow> s\<lparr>app := handleTranscript (app s) \<lparr>msg_role = User, msg_text = t\<rparr>\<rparr>)"
  using assms by (simp add: handleData_def handleData_try_def split: sum.splits)

lemma example_after_first_turn:
  "run initial_sys [Segments [\<lparr>seg_text = ''Hi'', seg_final = True\<rparr>] True]
     = \<lparr>call = \<lparr>committedIndex = 1, lastText = [], streamingActive = True\<rparr>,
        app = \<lparr>transcriptMessages = [\<lparr>msg_role = Agent, msg_text = JStr ''Hi''\<rparr>],
               pending = [], ragSources = JArr [], isStreaming = False\<rparr>\<rparr>"
  by (simp add: run_simps segmentsChanged_def agentTranscriptionsEffect_def currentSegments_def
      Let_def initial_sys_def initial_call_def initial_app_def handleAgentStream_def render_def
      agentStreamUpdater_def)

text \<open>
  Claim C2, as the code has it. The streaming flag of the call is set exactly when a
  streaming update has been made since the call began, and nothing ever clears it. So in
  every state a call can reach, an agent \<^verbatim>\<open>transcript\<close> event is dropped when a
  streaming update has been made at any earlier point of the call, in this turn or a
  previous one, and is handed to \<^verbatim>\<open>handleTranscript\<close> when none has been made, which
  queues the append: at the next render the message stands at the end of the list, behind
  whatever the updaters queued before it have made of the list. A caller transcript event
  is appended in the same way in every state.
\<close>

theorem agent_fallback_suppressed_once_streaming:
  "streamingActive (call (run s evs)) = (streamingActive (call s) \<or> updates s evs \<noteq> [])
   \<and> (getProp msg ''type'' = Inr (JStr ''transcript'') \<and> getProp msg ''role'' = Inr (JStr ''agent'')
        \<and> getProp msg ''text'' = Inr t \<longrightarrow>
       handleData (run initial_sys evs) (Some msg) =
         (if updates initial_sys evs \<noteq> [] then run initial_sys evs
          else (run initial_sys evs)
                 \<lparr>app := handleTranscript (app (run initial_sys evs))
                           \<lparr>msg_role = Agent, msg_text = t\<rparr>\<rparr>))
   \<and> (getProp msg ''type'' = Inr (JStr ''transcript'') \<and> getProp msg ''role'' = Inr (JStr ''user'')
        \<and> getProp msg ''text'' = Inr t \<longrightarrow>
       handleData s (Some msg) = s\<lparr>app := handleTranscript (app s) \<lparr>msg_role = User, msg_text = t\<rparr>\<rparr>)
   \<and> pending (handleTranscript a m) = pending a @ [Append m]
   \<and> transcriptMessages (render (handleTranscript a m))
       = transcriptMessages (render (a\<lparr>isStreaming := False\<rparr>)) @ [m]
   \<and> (pending a = [] \<longrightarrow>
        transcriptMessages (render (handleTranscript a m)) = transcriptMessages a @ [m])
   \<and> (updates initial_sys evs \<noteq> [] \<longrightarrow> updates initial_sys (evs @ rest) \<noteq> [])"
proof (intro conjI impI)
  show "streamingActive (call (run s evs)) = (streamingActive (call s) \<or> updates s evs \<noteq> [])"
    by (rule run_flag)
next
  assume a: "getProp msg ''type'' = Inr (JStr ''transcript'') \<and> getProp msg ''role'' = Inr (JStr ''agent'')
        \<and> getProp msg ''text'' = Inr t"
  have f: "streamingActive (call (run initial_sys evs)) = (updates initial_sys evs \<noteq> [])"
    using run_flag[of initial_sys evs] initial_flag by simp
  show "handleData (run initial_sys evs) (Some msg) =
         (if updates initial_sys evs \<noteq> [] then run initial_sys evs
          else (run initial_sys evs)
                 \<lparr>app := handleTranscript (app (run initial_sys evs))
                           \<lparr>msg_role = Agent, msg_text = t\<rparr>\<rparr>)"
    using a f by (simp add: handleData_transcript_agent)
next
  assume "getProp msg ''type'' = Inr (JStr ''transcript'') \<and> getProp msg ''role'' = Inr (JStr ''user'')
        \<and> getProp msg ''text'' = Inr t"
  then show "handleData s (Some msg) = s\<lparr>app := handleTranscript (app s) \<lparr>msg_role = User, msg_text = t\<rparr>\<rparr>"
    by (simp add: handleData_transcript_user)
next
  show "pending (handleTranscript a m) = pending a @ [Append m]"
    by (rule handleTranscript_queues)
next
  show "transcriptMessages (render (handleTranscript a m))
       = transcriptMessages (render (a\<lparr>isStreaming := False\<rparr>)) @ [m]"
    by (rule handleTranscript_rendered_behind)
next
  assume "pending a = []"
  then show "transcriptMessages (render (handleTranscript a m)) = transcriptMessages a @ [m]"
    by (rule handleTranscript_rendered)
next
  assume "updates initial_sys evs \<noteq> []"
  then show "updates initial_sys (evs @ rest) \<noteq> []"
    by (simp add: updates_append)
qed

theorem agent_fallback_suppressed_once_streaming_witness:
  "updates initial_sys [Segments [\<lparr>seg_text = ''Hi'', seg_final = True\<rparr>] True] = [(''Hi'', True)]
   \<and> handleData (run initial_sys [Segments [\<lparr>seg_text = ''Hi'', seg_final = True\<rparr>] True])
        (transcript_event ''agent'' ''Hi'')
      = run initial_sys [Segments [\<lparr>seg_text = ''Hi'', seg_final = True\<rparr>] True]
   \<and> pending (app (handleData (run initial_sys []) (transcript_event ''agent'' ''Hi'')))
      = [Append \<lparr>msg_role = Agent, msg_text = JStr ''Hi''\<rparr>]"
proof -
  let ?evs = "[Segments [\<lparr>seg_text = ''Hi'', seg_final = True\<rparr>] True]"
  let ?msg = "JObj [(''type'', JStr ''transcript''), (''role'', JStr ''agent''), (''text'', JStr ''Hi'')]"
  have u: "updates initial_sys ?evs = [(''Hi'', True)]"
    by (simp add: agentTranscriptionsEffect_def currentSegments_def Let_def
        initial_sys_def initial_call_def)
  have g: "getProp ?msg ''type'' = Inr (JStr ''transcript'') \<and> getProp ?msg ''role'' = Inr (JStr ''agent'')
        \<and> getProp ?msg ''text'' = Inr (JStr ''Hi'')"
    by simp
  have 1: "handleData (run initial_sys ?evs) (Some ?msg) = run initial_sys ?evs"
    using agent_fallback_suppressed_once_streaming[where msg = ?msg and t = "JStr ''Hi''" and evs = ?evs] g u by simp
  have e: "updates initial_sys [] = []" by simp
  have 2: "handleData (run initial_sys []) (Some ?msg)
      = (run initial_sys [])\<lparr>app := handleTranscript (app (run initial_sys []))
                           \<lparr>msg_role = Agent, msg_text = JStr ''Hi''\<rparr>\<rparr>"
    using agent_fallback_suppressed_once_streaming[where msg = ?msg and t = "JStr ''Hi''" and evs = "[]"] g e by simp
  have 3: "pending (app (handleData (run initial_sys []) (Some ?msg)))
      = [Append \<lparr>msg_role = Agent, msg_text = JStr ''Hi''\<rparr>]"
    unfolding 2
    by (simp add: run_simps handleTranscript_def initial_sys_def initial_app_def)
  show ?thesis using u 1 3 by (simp add: transcript_event_def)
qed

text \<open>
  The first turn streams one final segment and commits: the cursor is at the end of the
  list, the last text is cleared and the application has left streaming. The caller then
  speaks, and the agent's answer to that arrives on the data channel only. It is dropped,
  although no streaming update was made in this second turn.
\<close>

theorem fallback_suppressed_in_later_turn_counterexample:
  "call (run initial_sys [Segments [\<lparr>seg_text = ''Hi'', seg_final = True\<rparr>] True])
     = \<lparr>committedIndex = 1, lastText = [], streamingActive = True\<rparr>
   \<and> isStreaming (app (run initial_sys [Segments [\<lparr>seg_text = ''Hi'', seg_final = True\<rparr>] True]))
     = False
   \<and> transcriptMessages (app (run initial_sys
        [Segments [\<lparr>seg_text = ''Hi'', seg_final = True\<rparr>] True,
         Data (transcript_event ''user'' ''What now?''),
         Data (transcript_event ''agent'' ''Next answer''),
         Render]))
      = [\<lparr>msg_role = Agent, msg_text = JStr ''Hi''\<rparr>,
         \<lparr>msg_role = User, msg_text = JStr ''What now?''\<rparr>]"
proof -
  have split: "run initial_sys
        [Segments [\<lparr>seg_text = ''Hi'', seg_final = True\<rparr>] True,
         Data (transcript_event ''user'' ''What now?''),
         Data (transcript_event ''agent'' ''Next answer''),
         Render]
     = run (run initial_sys [Segments [\<lparr>seg_text = ''Hi'', seg_final = True\<rparr>] True])
        [Data (transcript_event ''user'' ''What now?''),
         Data (transcript_event ''agent'' ''Next answer''),
         Render]"
    by (simp add: run_def)
  show ?thesis
    unfolding split example_after_first_turn
    by (simp add: run_simps transcript_event_def handleData_def handleData_try_def
        handleTranscript_def render_def)
qed

lemma render_same_transcript:
  assumes "transcriptMessages a' = transcriptMessages a" "pending a' = pending a"
    "isStreaming a' = isStreaming a"
  shows "transcriptMessages (render a') = transcriptMessages (render a)"
  using assms by (simp add: render_transcript)

lemma handleData_not_transcript:
  assumes "\<not> (\<exists>m. parsed = Some m \<and> getProp m ''type'' = Inr (JStr ''transcript''))"
  shows "transcriptMessages (app (handleData s parsed)) = transcriptMessages (app s)"
    "pending (app (handleData s parsed)) = pending (app s)"
    "isStreaming (app (handleData s parsed)) = isStreaming (app s)"
  using assms
  by (auto simp: handleData_def handleData_try_def handleRagSources_def
      split: option.splits sum.splits if_splits)

text \<open>
  Claim C8: a payload that does not parse, or whose \<^verbatim>\<open>type\<close> is neither
  \<^verbatim>\<open>transcript\<close> nor \<^verbatim>\<open>rag_sources\<close>, leaves the whole state as it was; whatever
  is thrown inside the handler is caught and also leaves the state as it was. The
  transcript, its queued updaters, the streaming flag and the transcript after the next
  render change only on a \<^verbatim>\<open>transcript\<close> event, and the sources only on a
  \<^verbatim>\<open>rag_sources\<close> event, which stores the event's sources, or the empty array when
  they are missing. The refs of the call are never touched.
\<close>

theorem data_events_closed_union:
  "handleData s None = s
   \<and> (getProp msg ''type'' \<noteq> Inr (JStr ''transcript'')
        \<and> getProp msg ''type'' \<noteq> Inr (JStr ''rag_sources'') \<longrightarrow> handleData s (Some msg) = s)
   \<and> (handleData_try s parsed = Inl e \<longrightarrow> handleData s parsed = s)
   \<and> call (handleData s parsed) = call s
   \<and> (transcriptMessages (app (handleData s parsed)) \<noteq> transcriptMessages (app s) \<longrightarrow>
        (\<exists>m. parsed = Some m \<and> getProp m ''type'' = Inr (JStr ''transcript'')))
   \<and> (pending (app (handleData s parsed)) \<noteq> pending (app s)
        \<or> isStreaming (app (handleData s parsed)) \<noteq> isStreaming (app s)
        \<or> transcriptMessages (render (app (handleData s parsed)))
             \<noteq> transcriptMessages (render (app s)) \<longrightarrow>
        (\<exists>m. parsed = Some m \<and> getProp m ''type'' = Inr (JStr ''transcript'')))
   \<and> (ragSources (app (handleData s parsed)) \<noteq> ragSources (app s) \<longrightarrow>
        (\<exists>m. parsed = Some m \<and> getProp m ''type'' = Inr (JStr ''rag_sources'')))
   \<and> (getProp msg ''type'' = Inr (JStr ''rag_sources'') \<and> getProp msg ''sources'' = Inr srcs \<longrightarrow>
        handleData s (Some msg) = s\<lparr>app := (app s)\<lparr>ragSources := or_else srcs (JArr [])\<rparr>\<rparr>)"
proof (intro conjI impI)
  show "handleData s None = s"
    by (simp add: handleData_def handleData_try_def)
next
  assume "getProp msg ''type'' \<noteq> Inr (JStr ''transcript'')
        \<and> getProp msg ''type'' \<noteq> Inr (JStr ''rag_sources'')"
  then show "handleData s (Some msg) = s"
    by (auto simp: handleData_def handleData_try_def split: sum.splits)
next
  assume "handleData_try s parsed = Inl e"
  then show "handleData s parsed = s" by (simp add: handleData_def)
next
  show "call (handleData s parsed) = call s" by (rule handleData_call)
next
  assume "transcriptMessages (app (handleData s parsed)) \<noteq> transcriptMessages (app s)"
  then show "\<exists>m. parsed = Some m \<and> getProp m ''type'' = Inr (JStr ''transcript'')"
    using handleData_not_transcript(1)[of parsed s] by blast
next
  assume c: "pending (app (handleData s parsed)) \<noteq> pending (app s)
        \<or> isStreaming (app (handleData s parsed)) \<noteq> isStreaming (app s)
        \<or> transcriptMessages (render (app (handleData s parsed)))
             \<noteq> transcriptMessages (render (app s))"
  show "\<exists>m. parsed = Some m \<and> getProp m ''type'' = Inr (JStr ''transcript'')"
  proof (rule ccontr)
    assume n: "\<not> (\<exists>m. parsed = Some m \<and> getProp m ''type'' = Inr (JStr ''transcript''))"
    have "transcriptMessages (render (app (handleData s parsed)))
             = transcriptMessages (render (app s))"
      using handleData_not_transcript[OF n, of s] by (rule render_same_transcript)
    then show False using c handleData_not_transcript(2,3)[OF n, of s] by simp
  qed
next
  assume "ragSources (app (handleData s parsed)) \<noteq> ragSources (app s)"
  then show "\<exists>m. parsed = Some m \<and> getProp m ''type'' = Inr (JStr ''rag_sources'')"
    by (auto simp: handleData_def handleData_try_def handleTranscript_def
        split: option.splits sum.splits if_splits)
next
  assume "getProp msg ''type'' = Inr (JStr ''rag_sources'') \<and> getProp msg ''sources'' = Inr srcs"
  then show "handleData s (Some msg) = s\<lparr>app := (app s)\<lparr>ragSources := or_else srcs (JArr [])\<rparr>\<rparr>"
    by (simp add: handleData_def handleData_try_def handleRagSources_def)
qed

theorem data_events_closed_union_witness:
  "handleData initial_sys (Some (JObj [(''type'', JStr ''ping'')])) = initial_sys
   \<and> handleData initial_sys (Some JNull) = initial_sys
   \<and> handleData_try initial_sys (Some JNull) = Inl TypeError"
proof -
  have t: "getProp (JObj [(''type'', JStr ''ping'')]) ''type'' \<noteq> Inr (JStr ''transcript'')
        \<and> getProp (JObj [(''type'', JStr ''ping'')]) ''type'' \<noteq> Inr (JStr ''rag_sources'')"
    by simp
  have n: "handleData_try initial_sys (Some JNull) = Inl TypeError"
    by (simp add: handleData_try_def)
  have a: "handleData initial_sys (Some (JObj [(''type'', JStr ''ping'')])) = initial_sys"
    using data_events_closed_union[of initial_sys "JObj [(''type'', JStr ''ping'')]"] t by blast
  have b: "handleData initial_sys (Some JNull) = initial_sys"
    using data_events_closed_union[of initial_sys _ "Some JNull" TypeError] n by blast
  show ?thesis using a b n by simp
qed

section \<open>Properties of the API client\<close>

lemma not_ok_throws:
  assumes "\<not> ok res"
  shows "getToken (Inr res) = Inl (Error (JStr ''Failed to get token''))"
    and "isl (uploadDocument (Inr res))"
    and "listDocuments (Inr res) = Inl (Error (JStr ''Failed to list documents''))"
    and "deleteDocument (Inr res) = Inl (Error (JStr ''Failed to delete document''))"
    and "getPrompt (Inr res) = Inl (Error (JStr ''Failed to get prompt''))"
    and "updatePrompt (Inr res) = Inl (Error (JStr ''Failed to update prompt''))"
    and "getAgentStatus (Inr res) = Inl (Error (JStr ''Failed to get agent status''))"
    and "startAgent (Inr res) = Inl (Error (JStr ''Failed to start agent''))"
    and "stopAgent (Inr res) = Inl (Error (JStr ''Failed to stop agent''))"
  using assms
  by (simp_all add: getToken_def uploadDocument_def listDocuments_def deleteDocument_def
      getPrompt_def updatePrompt_def getAgentStatus_def startAgent_def stopAgent_def Let_def
      split: sum.splits)

lemma ok_void_returns:
  assumes "ok res"
  shows "deleteDocument (Inr res) = Inr ()" "updatePrompt (Inr res) = Inr ()"
    "stopAgent (Inr res) = Inr ()"
  using assms by (simp_all add: deleteDocument_def updatePrompt_def stopAgent_def)

lemma ok_body_returns:
  assumes "ok res" "body res = Some v"
  shows "getToken (Inr res) = Inr v" "uploadDocument (Inr res) = Inr v"
    "getAgentStatus (Inr res) = Inr v" "startAgent (Inr res) = Inr v"
    "listDocuments (Inr res) = getProp v ''documents''"
    "getPrompt (Inr res) = getProp v ''prompt''"
  using assms
  by (simp_all add: getToken_def uploadDocument_def getAgentStatus_def startAgent_def
      listDocuments_def getPrompt_def res_json_def)

lemma ok_unparsed_throws:
  assumes "ok res" "body res = None"
  shows "getToken (Inr res) = Inl SyntaxError" "uploadDocument (Inr res) = Inl SyntaxError"
    "getAgentStatus (Inr res) = Inl SyntaxError" "startAgent (Inr res) = Inl SyntaxError"
    "listDocuments (Inr res) = Inl SyntaxError" "getPrompt (Inr res) = Inl SyntaxError"
  using assms
  by (simp_all add: getToken_def uploadDocument_def getAgentStatus_def startAgent_def
      listDocuments_def getPrompt_def res_json_def)

lemma getProp_isl: "isl (getProp v k) = nullish v"
  by (cases v) simp_all

text \<open>
  Claim C10, as the code has it. When the response is not ok each of the nine functions
  throws. When it is ok, \<^verbatim>\<open>deleteDocument\<close>, \<^verbatim>\<open>updatePrompt\<close> and \<^verbatim>\<open>stopAgent\<close>
  return, with no value; \<^verbatim>\<open>getToken\<close>, \<^verbatim>\<open>uploadDocument\<close>, \<^verbatim>\<open>getAgentStatus\<close>
  and \<^verbatim>\<open>startAgent\<close> return the parsed body when the body parses;
  \<^verbatim>\<open>listDocuments\<close> and \<^verbatim>\<open>getPrompt\<close> return the \<^verbatim>\<open>documents\<close> and
  \<^verbatim>\<open>prompt\<close> property of the parsed body when it parses to something other than
  \<^verbatim>\<open>null\<close>. An ok response whose body does not parse makes the six functions that read
  it throw.
\<close>

theorem api_client_throws_when_not_ok:
  "(\<not> ok res \<longrightarrow>
       isl (getToken (Inr res)) \<and> isl (uploadDocument (Inr res)) \<and> isl (listDocuments (Inr res))
     \<and> isl (deleteDocument (Inr res)) \<and> isl (getPrompt (Inr res)) \<and> isl (updatePrompt (Inr res))
     \<and> isl (getAgentStatus (Inr res)) \<and> isl (startAgent (Inr res)) \<and> isl (stopAgent (Inr res)))
   \<and> (ok res \<longrightarrow>
       deleteDocument (Inr res) = Inr () \<and> updatePrompt (Inr res) = Inr ()
     \<and> stopAgent (Inr res) = Inr ())
   \<and> (ok res \<and> body res = Some v \<longrightarrow>
       getToken (Inr res) = Inr v \<and> uploadDocument (Inr res) = Inr v
     \<and> getAgentStatus (Inr res) = Inr v \<and> startAgent (Inr res) = Inr v
     \<and> listDocuments (Inr res) = getProp v ''documents''
     \<and> getPrompt (Inr res) = getProp v ''prompt''
     \<and> (isl (listDocuments (Inr res)) = nullish v) \<and> (isl (getPrompt (Inr res)) = nullish v))
   \<and> (ok res \<and> body res = None \<longrightarrow>
       isl (getToken (Inr res)) \<and> isl (uploadDocument (Inr res)) \<and> isl (listDocuments (Inr res))
     \<and> isl (getPrompt (Inr res)) \<and> isl (getAgentStatus (Inr res)) \<and> isl (startAgent (Inr res)))"
proof (intro conjI impI)
  assume n: "\<not> ok res"
  show "isl (getToken (Inr res))" "isl (uploadDocument (Inr res))" "isl (listDocuments (Inr res))"
    "isl (deleteDocument (Inr res))" "isl (getPrompt (Inr res))" "isl (updatePrompt (Inr res))"
    "isl (getAgentStatus (Inr res))" "isl (startAgent (Inr res))" "isl (stopAgent (Inr res))"
    using not_ok_throws[OF n] by simp_all
next
  assume o: "ok res"
  show "deleteDocument (Inr res) = Inr ()" "updatePrompt (Inr res) = Inr ()"
    "stopAgent (Inr res) = Inr ()"
    using ok_void_returns[OF o] by simp_all
next
  assume a: "ok res \<and> body res = Some v"
  then have o: "ok res" and b: "body res = Some v" by simp_all
  show "getToken (Inr res) = Inr v" "uploadDocument (Inr res) = Inr v"
    "getAgentStatus (Inr res) = Inr v" "startAgent (Inr res) = Inr v"
    "listDocuments (Inr res) = getProp v ''documents''"
    "getPrompt (Inr res) = getProp v ''prompt''"
    using ok_body_returns[OF o b] by simp_all
  show "isl (listDocuments (Inr res)) = nullish v" "isl (getPrompt (Inr res)) = nullish v"
    using ok_body_returns(5,6)[OF o b] by (simp_all add: getProp_isl)
next
  assume a: "ok res \<and> body res = None"
  then have o: "ok res" and b: "body res = None" by simp_all
  show "isl (getToken (Inr res))" "isl (uploadDocument (Inr res))" "isl (listDocuments (Inr res))"
    "isl (getPrompt (Inr res))" "isl (getAgentStatus (Inr res))" "isl (startAgent (Inr res))"
    using ok_unparsed_throws[OF o b] by simp_all
qed

theorem api_client_throws_when_not_ok_witness:
  "isl (getToken (Inr \<lparr>ok = False, body = Some (JObj [(''detail'', JStr ''no'')])\<rparr>))
   \<and> isl (uploadDocument (Inr \<lparr>ok = False, body = Some (JObj [(''detail'', JStr ''no'')])\<rparr>))
   \<and> getPrompt (Inr \<lparr>ok = True, body = Some (JObj [(''prompt'', JStr ''Be brief'')])\<rparr>)
       = Inr (JStr ''Be brief'')
   \<and> stopAgent (Inr \<lparr>ok = True, body = Some (JObj [(''prompt'', JStr ''Be brief'')])\<rparr>) = Inr ()"
proof -
  have a: "isl (getToken (Inr \<lparr>ok = False, body = Some (JObj [(''detail'', JStr ''no'')])\<rparr>))
     \<and> isl (uploadDocument (Inr \<lparr>ok = False, body = Some (JObj [(''detail'', JStr ''no'')])\<rparr>))"
    using api_client_throws_when_not_ok[of "\<lparr>ok = False, body = Some (JObj [(''detail'', JStr ''no'')])\<rparr>"]
    by simp
  have b: "getPrompt (Inr \<lparr>ok = True, body = Some (JObj [(''prompt'', JStr ''Be brief'')])\<rparr>)
       = Inr (JStr ''Be brief'')
     \<and> stopAgent (Inr \<lparr>ok = True, body = Some (JObj [(''prompt'', JStr ''Be brief'')])\<rparr>) = Inr ()"
    using api_client_throws_when_not_ok[of
        "\<lparr>ok = True, body = Some (JObj [(''prompt'', JStr ''Be brief'')])\<rparr>"
        "JObj [(''prompt'', JStr ''Be brief'')]"]
    by simp
  show ?thesis using a b by simp
qed

text \<open>
  So throwing is not the same as the response not being ok: an ok response with a body
  that is not JSON makes \<^verbatim>\<open>getToken\<close> throw, and an ok response with the body
  \<^verbatim>\<open>null\<close> makes \<^verbatim>\<open>listDocuments\<close> throw.
\<close>

theorem api_client_ok_but_throws_counterexample:
  "ok \<lparr>ok = True, body = None\<rparr>
   \<and> getToken (Inr \<lparr>ok = True, body = None\<rparr>) = Inl SyntaxError
   \<and> listDocuments (Inr \<lparr>ok = True, body = Some JNull\<rparr>) = Inl TypeError"
  by (simp add: getToken_def listDocuments_def res_json_def)

section \<open>Properties of the session registry\<close>

lemma active_disconnect:
  "active_sessions (disconnect reg sid) = filter (\<lambda>i. i \<noteq> sid) (active_sessions reg)"
  by (induction reg) (auto simp: active_sessions_def disconnect_def)

lemma serve_keeps_single:
  "length (active_sessions reg) \<le> 1 \<Longrightarrow> length (active_sessions (serve reg rq)) \<le> 1"
proof (cases rq)
  case (Connect sid)
  assume "length (active_sessions reg) \<le> 1"
  then show ?thesis
    by (cases "active_sessions reg = []")
       (simp_all add: Connect connect_def, simp add: active_sessions_def)
next
  case (Disconnect sid)
  assume a: "length (active_sessions reg) \<le> 1"
  have "length (filter (\<lambda>i. i \<noteq> sid) (active_sessions reg)) \<le> length (active_sessions reg)"
    by (rule length_filter_le)
  then have "length (filter (\<lambda>i. i \<noteq> sid) (active_sessions reg)) \<le> 1"
    using a by (rule le_trans)
  then show ?thesis by (simp only: Disconnect serve.simps active_disconnect)
qed

lemma serve_all_keeps_single:
  "length (active_sessions reg) \<le> 1 \<Longrightarrow> length (active_sessions (foldl serve reg rqs)) \<le> 1"
proof (induction rqs arbitrary: reg)
  case Nil
  then show ?case by simp
next
  case (Cons rq rqs)
  have "length (active_sessions (serve reg rq)) \<le> 1"
    using Cons.prems by (rule serve_keeps_single)
  then have "length (active_sessions (foldl serve (serve reg rq) rqs)) \<le> 1"
    by (rule Cons.IH)
  then show ?case by (simp only: foldl_Cons)
qed

text \<open>
  Claim C6, on the registry modelled from the spec: after any sequence of connection and
  disconnection requests at most one session is Active. A connection attempt while a
  session is Active is answered at once with the session conflict and leaves the
  registry as it was; an attempt while none is Active makes the new session the Active
  one; a disconnected session is no longer Active.
\<close>

theorem single_active_session:
  "length (active_sessions (foldl serve [] rqs)) \<le> 1
   \<and> (active_sessions reg \<noteq> [] \<longrightarrow>
        connect reg sid = Inl SessionConflict \<and> serve reg (Connect sid) = reg)
   \<and> (active_sessions reg = [] \<longrightarrow>
        connect reg sid = Inr ((sid, Active) # reg)
        \<and> active_sessions (serve reg (Connect sid)) = [sid])
   \<and> sid \<notin> set (active_sessions (serve reg (Disconnect sid)))"
proof (intro conjI impI)
  show "length (active_sessions (foldl serve [] rqs)) \<le> 1"
    by (rule serve_all_keeps_single) (simp add: active_sessions_def)
next
  assume "active_sessions reg \<noteq> []"
  then show "connect reg sid = Inl SessionConflict" "serve reg (Connect sid) = reg"
    by (simp_all add: connect_def)
next
  assume "active_sessions reg = []"
  then show "connect reg sid = Inr ((sid, Active) # reg)"
    "active_sessions (serve reg (Connect sid)) = [sid]"
    by (simp_all add: connect_def, simp add: active_sessions_def)
next
  show "sid \<notin> set (active_sessions (serve reg (Disconnect sid)))"
    by (simp add: active_disconnect)
qed

theorem single_active_session_witness:
  "active_sessions (foldl serve [] [Connect 1]) = [1]
   \<and> connect (foldl serve [] [Connect 1]) 2 = Inl SessionConflict
   \<and> foldl serve [] [Connect 1, Connect 2] = foldl serve [] [Connect 1]
   \<and> active_sessions (foldl serve [] [Connect 1, Connect 2, Disconnect 1, Connect 3]) = [3]"
proof -
  have r1: "foldl serve [] [Connect 1] = [(1, Active)]"
    by (simp add: connect_def active_sessions_def)
  have a1: "active_sessions [(1, Active)] \<noteq> []"
    by (simp add: active_sessions_def)
  have c: "connect [(1, Active)] 2 = Inl SessionConflict \<and> serve [(1, Active)] (Connect 2) = [(1, Active)]"
    using single_active_session[of _ "[(1, Active)]" 2] a1 by blast
  have d: "active_sessions (foldl serve [] [Connect 1, Connect 2, Disconnect 1, Connect 3]) = [3]"
    by (simp add: connect_def active_sessions_def disconnect_def)
  show ?thesis using r1 c d by (simp add: active_sessions_def)
qed

end
